theory Spec2Isabelle
  imports
    Complex_Main
    "HOL-Library.Char_ord"
    "HOL-Library.List_Lexorder"
    "HOL-Library.Product_Lexorder"
    "HOL-Library.Sublist"
begin

section \<open>Text: Python \<open>str\<close> methods on ASCII text\<close>

text \<open>
  SQL text, model answers and error messages are Python \<open>str\<close> values. They are modelled
  as \<open>string\<close> (lists of 8-bit characters) holding ASCII text: on ASCII, \<open>str.lower\<close>
  keeps the length, \<open>\s\<close> and \<open>str.strip\<close> see the ten ASCII white-space characters and
  \<open>\w\<close> is \<open>[A-Za-z0-9_]\<close>. Text beyond ASCII is outside of the model.
\<close>

definition is_space :: "char \<Rightarrow> bool" where
  "is_space c \<longleftrightarrow>
     c = CHR '' '' \<or> (CHR 0x09 \<le> c \<and> c \<le> CHR 0x0D) \<or> (CHR 0x1C \<le> c \<and> c \<le> CHR 0x1F)"

definition is_lower :: "char \<Rightarrow> bool" where
  "is_lower c \<longleftrightarrow> CHR ''a'' \<le> c \<and> c \<le> CHR ''z''"

definition is_upper :: "char \<Rightarrow> bool" where
  "is_upper c \<longleftrightarrow> CHR ''A'' \<le> c \<and> c \<le> CHR ''Z''"

definition is_digit :: "char \<Rightarrow> bool" where
  "is_digit c \<longleftrightarrow> CHR ''0'' \<le> c \<and> c \<le> CHR ''9''"

definition is_word :: "char \<Rightarrow> bool" where
  "is_word c \<longleftrightarrow> is_lower c \<or> is_upper c \<or> is_digit c \<or> c = CHR ''_''"

definition lower_char :: "char \<Rightarrow> char" where
  "lower_char c = (if is_upper c then char_of (of_char c + (32::nat)) else c)"

definition lower :: "string \<Rightarrow> string" where
  "lower s = map lower_char s"

definition lstrip :: "string \<Rightarrow> string" where
  "lstrip s = dropWhile is_space s"

definition rstrip :: "string \<Rightarrow> string" where
  "rstrip s = rev (dropWhile is_space (rev s))"

definition strip :: "string \<Rightarrow> string" where
  "strip s = lstrip (rstrip s)"

definition startswith :: "string \<Rightarrow> string \<Rightarrow> bool" where
  "startswith s p \<longleftrightarrow> take (length p) s = p"

definition endswith :: "string \<Rightarrow> string \<Rightarrow> bool" where
  "endswith s p \<longleftrightarrow> length p \<le> length s \<and> drop (length s - length p) s = p"

text \<open>\<open>sub in s\<close>: \<open>sub\<close> occurs in \<open>s\<close> as a contiguous piece.\<close>

fun contains :: "string \<Rightarrow> string \<Rightarrow> bool" where
  "contains [] p = (p = [])"
| "contains (c # cs) p = (startswith (c # cs) p \<or> contains cs p)"

text \<open>\<open>sep.join(xs)\<close>\<close>

fun join :: "string \<Rightarrow> string list \<Rightarrow> string" where
  "join sep [] = []"
| "join sep [x] = x"
| "join sep (x # y # ys) = x @ sep @ join sep (y # ys)"

text \<open>\<open>str.isalpha\<close>: not empty, letters only.\<close>

definition isalpha :: "string \<Rightarrow> bool" where
  "isalpha s \<longleftrightarrow> s \<noteq> [] \<and> list_all (\<lambda>c. is_lower c \<or> is_upper c) s"

text \<open>\<open>str(n)\<close> for an integer.\<close>

definition digit_char :: "nat \<Rightarrow> char" where
  "digit_char d = char_of (48 + d)"

fun digits :: "nat \<Rightarrow> string" where
  "digits n = (if n < 10 then [digit_char n] else digits (n div 10) @ [digit_char (n mod 10)])"

declare digits.simps [simp del]

definition str_of_int :: "int \<Rightarrow> string" where
  "str_of_int i = (if i < 0 then CHR ''-'' # digits (nat (- i)) else digits (nat i))"


section \<open>Regular expressions: the fragment of Python's \<open>re\<close> the guardrails use\<close>

text \<open>
  Every pattern of the guardrails is built from single-character classes, the word
  boundary \<open>\b\<close>, concatenation, alternation, capture groups, and the repetitions
  \<open>*\<close>, \<open>+\<close>, \<open>*?\<close> applied to a single-character class. Flags are part of the
  translation: under \<open>re.I\<close> a literal letter accepts both cases, and under \<open>re.S\<close> the dot
  accepts every character.
\<close>

datatype rx =
    Eps
  | Chr "char \<Rightarrow> bool"
  | Bnd
  | Cat rx rx
  | Alt rx rx
  | Star "char \<Rightarrow> bool"
  | Lazy "char \<Rightarrow> bool"
  | Grp nat rx

text \<open>
  A matcher state: whether the character before the current position is a word
  character, the text from the current position on, and the groups captured so far.
\<close>

type_synonym mstate = "bool \<times> string \<times> (nat \<times> string) list"

definition next_is_word :: "string \<Rightarrow> bool" where
  "next_is_word s = (case s of [] \<Rightarrow> False | c # _ \<Rightarrow> is_word c)"

text \<open>The state after the first \<open>n\<close> characters of the text have been consumed.\<close>

fun advance :: "nat \<Rightarrow> bool \<Rightarrow> string \<Rightarrow> bool \<times> string" where
  "advance 0 w s = (w, s)"
| "advance (Suc n) w [] = (w, [])"
| "advance (Suc n) w (c # cs) = advance n (is_word c) cs"

text \<open>
  \<open>ms r st\<close> lists the states in which a match of \<open>r\<close> started in \<open>st\<close> can end, in the
  order in which the backtracking matcher tries them: alternatives left to right, a
  greedy repetition longest first, a lazy one shortest first.
\<close>

primrec ms :: "rx \<Rightarrow> mstate \<Rightarrow> mstate list" where
  "ms Eps = (\<lambda>st. [st])"
| "ms (Chr p) = (\<lambda>(w, s, g).
     case s of [] \<Rightarrow> [] | c # cs \<Rightarrow> if p c then [(is_word c, cs, g)] else [])"
| "ms Bnd = (\<lambda>(w, s, g). if w \<noteq> next_is_word s then [(w, s, g)] else [])"
| "ms (Cat a b) = (\<lambda>st. concat (map (ms b) (ms a st)))"
| "ms (Alt a b) = (\<lambda>st. ms a st @ ms b st)"
| "ms (Star p) = (\<lambda>(w, s, g).
     map (\<lambda>k. case advance k w s of (w', s') \<Rightarrow> (w', s', g))
       (rev [0 ..< Suc (length (takeWhile p s))]))"
| "ms (Lazy p) = (\<lambda>(w, s, g).
     map (\<lambda>k. case advance k w s of (w', s') \<Rightarrow> (w', s', g))
       [0 ..< Suc (length (takeWhile p s))])"
| "ms (Grp n a) = (\<lambda>(w, s, g).
     map (\<lambda>(w', s', g'). (w', s', (n, take (length s - length s') s) # g')) (ms a (w, s, g)))"

text \<open>Pattern syntax.\<close>

definition ch :: "char \<Rightarrow> rx" where
  "ch c = Chr (\<lambda>x. x = c)"

text \<open>A literal character under \<open>re.I\<close>.\<close>

definition chi :: "char \<Rightarrow> rx" where
  "chi c = Chr (\<lambda>x. lower_char x = lower_char c)"

fun cats :: "rx list \<Rightarrow> rx" where
  "cats [] = Eps"
| "cats [r] = r"
| "cats (r # rs) = Cat r (cats rs)"

fun alts :: "rx list \<Rightarrow> rx" where
  "alts [] = Eps"
| "alts [r] = r"
| "alts (r # rs) = Alt r (alts rs)"

definition lit :: "string \<Rightarrow> rx" where
  "lit s = cats (map ch s)"

definition liti :: "string \<Rightarrow> rx" where
  "liti s = cats (map chi s)"

definition plus :: "(char \<Rightarrow> bool) \<Rightarrow> rx" where
  "plus p = Cat (Chr p) (Star p)"

definition opt :: "rx \<Rightarrow> rx" where
  "opt r = Alt r Eps"

text \<open>The group \<open>n\<close> of a match (the last capture under that number).\<close>

fun group :: "(nat \<times> string) list \<Rightarrow> nat \<Rightarrow> string option" where
  "group [] n = None"
| "group ((k, v) # g) n = (if k = n then Some v else group g n)"

text \<open>
  A match object: where the match starts and ends in the text (\<open>m.start()\<close>, \<open>m.end()\<close>),
  the matched text (\<open>m.group(0)\<close>) and the captured groups.
\<close>

record rmatch =
  m_start :: nat
  m_end :: nat
  m_text :: string
  m_groups :: "(nat \<times> string) list"

text \<open>
  \<open>re.search\<close>: the first position, from the left, at which the pattern matches, with the
  first way the matcher finds there. \<open>i\<close> is the current position.
\<close>

fun scan :: "rx \<Rightarrow> nat \<Rightarrow> bool \<Rightarrow> string \<Rightarrow> rmatch option" where
  "scan r i w [] =
     (case ms r (w, [], []) of
        [] \<Rightarrow> None
      | (w', s', g) # _ \<Rightarrow> Some \<lparr>m_start = i, m_end = i, m_text = [], m_groups = g\<rparr>)"
| "scan r i w (c # cs) =
     (case ms r (w, c # cs, []) of
        [] \<Rightarrow> scan r (Suc i) (is_word c) cs
      | (w', s', g) # _ \<Rightarrow>
          Some \<lparr>m_start = i, m_end = i + (length (c # cs) - length s'),
                m_text = take (length (c # cs) - length s') (c # cs), m_groups = g\<rparr>)"

definition search :: "rx \<Rightarrow> string \<Rightarrow> rmatch option" where
  "search r s = scan r 0 False s"

definition found :: "rx \<Rightarrow> string \<Rightarrow> bool" where
  "found r s \<longleftrightarrow> search r s \<noteq> None"

text \<open>
  \<open>re.finditer\<close>: the matches from left to right, none overlapping an earlier one. \<open>k\<close>
  counts the characters of the current match still to be passed. (No pattern of the
  guardrails matches the empty text; such a match would be reported and the scan
  would go on at the next character.)
\<close>

fun iter :: "rx \<Rightarrow> bool \<Rightarrow> nat \<Rightarrow> string \<Rightarrow> (string \<times> (nat \<times> string) list) list" where
  "iter r w k [] =
     (if k = 0 then
        (case ms r (w, [], []) of [] \<Rightarrow> [] | (w', s', g) # _ \<Rightarrow> [([], g)])
      else [])"
| "iter r w (Suc k) (c # cs) = iter r (is_word c) k cs"
| "iter r w 0 (c # cs) =
     (case ms r (w, c # cs, []) of
        [] \<Rightarrow> iter r (is_word c) 0 cs
      | (w', s', g) # _ \<Rightarrow>
          (take (length (c # cs) - length s') (c # cs), g)
            # iter r (is_word c) (length (c # cs) - length s' - 1) cs)"

definition finditer :: "rx \<Rightarrow> string \<Rightarrow> (string \<times> (nat \<times> string) list) list" where
  "finditer r s = iter r False 0 s"

text \<open>
  \<open>re.sub\<close> with a replacement that is taken literally (one without a backslash):
  every match, from left to right and none overlapping an earlier one, is replaced.
\<close>

fun subst :: "rx \<Rightarrow> string \<Rightarrow> bool \<Rightarrow> nat \<Rightarrow> string \<Rightarrow> string" where
  "subst r rep w k [] =
     (if k = 0 then (case ms r (w, [], []) of [] \<Rightarrow> [] | _ # _ \<Rightarrow> rep) else [])"
| "subst r rep w (Suc k) (c # cs) = subst r rep (is_word c) k cs"
| "subst r rep w 0 (c # cs) =
     (case ms r (w, c # cs, []) of
        [] \<Rightarrow> c # subst r rep (is_word c) 0 cs
      | (w', s', g) # _ \<Rightarrow>
          (if length s' = length (c # cs)
           then rep @ c # subst r rep (is_word c) 0 cs
           else rep @ subst r rep (is_word c) (length (c # cs) - length s' - 1) cs))"

definition re_sub :: "rx \<Rightarrow> string \<Rightarrow> string \<Rightarrow> string" where
  "re_sub r rep s = subst r rep False 0 s"


section \<open>Configuration (\<open>settings.py\<close>)\<close>

abbreviation (input) q :: string where
  "q \<equiv> [CHR 0x27]"

definition BAD_KEYWORDS :: "string list" where
  "BAD_KEYWORDS =
     [''update'', ''delete'', ''insert'', ''alter'', ''drop'',
      ''grant'', ''revoke'', ''truncate'', ''create'', ''copy'',
      ''call'', ''execute'', ''prepare'', ''deallocate'', ''explain'',
      ''vacuum'', ''analyze'', ''listen'', ''notify'',
      '';--'']"

definition ALLOW_VIEWS :: "string list" where
  "ALLOW_VIEWS = [''v_sales_daily'', ''v_promos_active'']"

definition ALLOW_TABLES :: "string list" where
  "ALLOW_TABLES = [''stores'', ''brands'', ''products'', ''promotions'', ''sales_transactions'']"

text \<open>\<open>COLUMNS\<close>: the known columns of each object; an object without an entry is \<open>None\<close>.\<close>

definition COLUMNS :: "string \<Rightarrow> string list option" where
  "COLUMNS obj =
     (if obj = ''v_sales_daily'' then Some
        [''date'', ''promo_week_start_wed'', ''store_id'', ''article_no'', ''product_name'',
         ''brand'', ''category'', ''sub_category'', ''regular_price'', ''order_multiple'',
         ''base_demand'', ''is_high_velocity'', ''units_sold'', ''sale_price'', ''is_promo'',
         ''discount_pct'', ''promo_channel'', ''has_endcap'', ''on_promo_bay'', ''price_ratio'']
      else if obj = ''v_promos_active'' then Some
        [''promo_id'', ''article_no'', ''store_id'', ''start_date'', ''end_date'', ''active_date'',
         ''offer_type'', ''discount_pct'', ''promo_channel'', ''has_endcap'', ''on_promo_bay'',
         ''brand'', ''category'', ''sub_category'']
      else if obj = ''sales_transactions'' then Some
        [''date'', ''store_id'', ''article_no'', ''units_sold'', ''sale_price'', ''is_promo'',
         ''promo_id'']
      else if obj = ''stores'' then Some
        [''store_id'', ''store_name'', ''region'', ''store_type'', ''opening_date'',
         ''store_area_sqm'']
      else if obj = ''brands'' then Some
        [''brand'', ''category'', ''sub_category'', ''promo_allowed'']
      else if obj = ''products'' then Some
        [''article_no'', ''product_name'', ''brand'', ''category'', ''sub_category'',
         ''regular_price'', ''order_multiple'', ''base_demand'', ''is_high_velocity'']
      else if obj = ''promotions'' then Some
        [''promo_id'', ''article_no'', ''store_id'', ''start_date'', ''end_date'', ''offer_type'',
         ''discount_pct'', ''promo_channel'', ''has_endcap'', ''on_promo_bay'', ''brand'',
         ''category'', ''sub_category'']
      else None)"


section \<open>Guardrails (\<open>domain/guardrails.py\<close>)\<close>

subsection \<open>\<open>extract_sql\<close>\<close>

definition any_char :: "char \<Rightarrow> bool" where
  "any_char c = True"

text \<open>\<^verbatim>\<open>```sql(.*?)```\<close> with \<open>re.S | re.I\<close>\<close>

definition rx_fence :: rx where
  "rx_fence = cats [liti ''```sql'', Grp 1 (Lazy any_char), liti ''```'']"

text \<open>\<^verbatim>\<open>\bselect\b.*\<close> with \<open>re.S | re.I\<close>\<close>

definition rx_select :: rx where
  "rx_select = cats [Bnd, liti ''select'', Bnd, Star any_char]"

text \<open>\<open>m.group(n)\<close> of a group that took part in the match.\<close>

definition group_text :: "rmatch \<Rightarrow> nat \<Rightarrow> string" where
  "group_text m n = (case group (m_groups m) n of Some v \<Rightarrow> v | None \<Rightarrow> [])"

definition extract_sql :: "string \<Rightarrow> string option" where
  "extract_sql text =
     (case search rx_fence text of
        Some m \<Rightarrow> Some (strip (group_text m 1))
      | None \<Rightarrow>
         (case search rx_select text of
            Some m2 \<Rightarrow> Some (strip (m_text m2))
          | None \<Rightarrow> None))"

subsection \<open>\<open>looks_select_only\<close>\<close>

definition looks_select_only :: "string \<Rightarrow> bool" where
  "looks_select_only sql =
     (let s = strip sql;
          s = (if endswith s '';'' then rstrip (butlast s) else s);
          low = lower s
      in if \<not> (startswith low ''select'' \<or> startswith low ''with'') then False
         else if contains s '';'' then False
         else True)"

subsection \<open>\<open>contains_bad\<close>\<close>

text \<open>\<^verbatim>\<open>\b(update|delete|...)\b\<close>, from the alphabetic entries of \<open>BAD_KEYWORDS\<close>\<close>

definition rx_bad :: rx where
  "rx_bad = cats [Bnd, Grp 1 (alts (map lit (filter isalpha BAD_KEYWORDS))), Bnd]"

definition rx_copy :: rx where
  "rx_copy = cats [Bnd, lit ''copy'', Bnd]"

definition contains_bad :: "string \<Rightarrow> bool" where
  "contains_bad sql =
     (let s = lower sql
      in if contains s '';--'' then True
         else if found rx_bad s then True
         else if found rx_copy s then True
         else False)"

subsection \<open>\<open>mentions_allowed_objects\<close>\<close>

definition rx_object :: "string \<Rightarrow> rx" where
  "rx_object name = cats [Bnd, lit (lower name), Bnd]"

definition mentions_allowed_objects :: "string \<Rightarrow> bool" where
  "mentions_allowed_objects sql =
     (let s = lower sql
      in list_ex (\<lambda>p. found p s) (map rx_object (ALLOW_VIEWS @ ALLOW_TABLES)))"

subsection \<open>\<open>columns_exist\<close>\<close>

text \<open>\<^verbatim>\<open>[a-z][a-z0-9_]*\<close>\<close>

definition ident_tail :: "char \<Rightarrow> bool" where
  "ident_tail c \<longleftrightarrow> is_lower c \<or> is_digit c \<or> c = CHR ''_''"

definition rx_ident :: rx where
  "rx_ident = Cat (Chr is_lower) (Star ident_tail)"

text \<open>\<^verbatim>\<open>\b<obj>\b\s+(?:as\s+)?([a-z][a-z0-9_]*)\<close>\<close>

definition rx_alias :: "string \<Rightarrow> rx" where
  "rx_alias obj =
     cats [Bnd, lit (lower obj), Bnd, plus is_space, opt (Cat (lit ''as'') (plus is_space)),
           Grp 1 rx_ident]"

text \<open>\<^verbatim>\<open>\b([a-z][a-z0-9_]*)\.(\*|[a-z][a-z0-9_]*)\b\<close>\<close>

definition rx_ref :: rx where
  "rx_ref = cats [Bnd, Grp 1 rx_ident, ch CHR ''.'', Grp 2 (Alt (ch CHR ''*'') rx_ident), Bnd]"

text \<open>
  The alias dictionary: for every allowed object, in order, every alias match assigns
  \<open>alias_of[alias] = obj\<close>; a later assignment replaces an earlier one.
\<close>

definition add_aliases :: "string \<Rightarrow> string \<Rightarrow> (string \<rightharpoonup> string) \<Rightarrow> (string \<rightharpoonup> string)" where
  "add_aliases low obj alias_of =
     fold (\<lambda>(t, g) d. d((case group g 1 of Some v \<Rightarrow> v | None \<Rightarrow> []) \<mapsto> obj))
       (finditer (rx_alias obj) low) alias_of"

definition alias_map :: "string \<Rightarrow> (string \<rightharpoonup> string)" where
  "alias_map low = fold (add_aliases low) (ALLOW_VIEWS @ ALLOW_TABLES) Map.empty"

text \<open>What one \<open>alias.column\<close> reference adds to \<open>bad_refs\<close>.\<close>

definition check_ref :: "(string \<rightharpoonup> string) \<Rightarrow> string \<Rightarrow> string \<Rightarrow> string list" where
  "check_ref alias_of alias col =
     (case alias_of alias of
        None \<Rightarrow> [''Undefined alias '' @ q @ alias @ q]
      | Some obj \<Rightarrow>
          if col = ''*'' then []
          else if col \<notin> set (map lower (case COLUMNS obj of Some cs \<Rightarrow> cs | None \<Rightarrow> []))
          then [alias @ ''.'' @ col @ '' not in '' @ obj]
          else [])"

definition bad_refs :: "string \<Rightarrow> string list" where
  "bad_refs sql =
     (let low = lower sql; alias_of = alias_map low
      in concat (map (\<lambda>(t, g).
            check_ref alias_of
              (case group g 1 of Some v \<Rightarrow> v | None \<Rightarrow> [])
              (case group g 2 of Some v \<Rightarrow> v | None \<Rightarrow> []))
          (finditer rx_ref low)))"

definition columns_exist :: "string \<Rightarrow> bool \<times> string option" where
  "columns_exist sql =
     (if bad_refs sql \<noteq> [] then (False, Some (join ''; '' (sort (remdups (bad_refs sql)))))
      else (True, None))"


subsection \<open>\<open>ensure_store_filter\<close>\<close>

text \<open>\<^verbatim>\<open>\bstore_id\s*=\s*'[^']*'\<close>\<close>

definition not_quote :: "char \<Rightarrow> bool" where
  "not_quote c \<longleftrightarrow> c \<noteq> CHR 0x27"

definition rx_store_pred :: rx where
  "rx_store_pred =
     cats [Bnd, lit ''store_id'', Star is_space, ch CHR ''='', Star is_space,
           ch (CHR 0x27), Star not_quote, ch (CHR 0x27)]"

text \<open>\<^verbatim>\<open>\bfrom\s+<obj>\s+(?:as\s+)?([a-zA-Z][a-zA-Z0-9_]*)\<close>\<close>

definition is_alpha :: "char \<Rightarrow> bool" where
  "is_alpha c \<longleftrightarrow> is_lower c \<or> is_upper c"

definition rx_from :: "string \<Rightarrow> rx" where
  "rx_from obj =
     cats [Bnd, lit ''from'', plus is_space, lit obj, plus is_space,
           opt (Cat (lit ''as'') (plus is_space)), Grp 1 (Cat (Chr is_alpha) (Star is_word))]"

definition rx_where :: rx where
  "rx_where = cats [Bnd, lit ''where'', Bnd]"

text \<open>\<^verbatim>\<open>\b(group\s+by|having|order\s+by|limit)\b\<close>\<close>

definition rx_tail_kw :: rx where
  "rx_tail_kw =
     cats [Bnd,
           Grp 1 (alts [cats [lit ''group'', plus is_space, lit ''by''], lit ''having'',
                        cats [lit ''order'', plus is_space, lit ''by''], lit ''limit'']),
           Bnd]"

text \<open>\<open>x.startswith((" ", "\n", "\t"))\<close> and \<open>x.endswith((" ", "\n", "\t"))\<close>\<close>

definition starts_blank :: "string \<Rightarrow> bool" where
  "starts_blank x \<longleftrightarrow> startswith x '' '' \<or> startswith x [CHR 0x0A] \<or> startswith x [CHR 0x09]"

definition ends_blank :: "string \<Rightarrow> bool" where
  "ends_blank x \<longleftrightarrow> endswith x '' '' \<or> endswith x [CHR 0x0A] \<or> endswith x [CHR 0x09]"

text \<open>The alias of the fact object, if its \<open>FROM\<close> clause shows one.\<close>

definition fact_alias :: "string \<Rightarrow> string option" where
  "fact_alias s_low =
     (let m = (case search (rx_from ''v_sales_daily'') s_low of
                 None \<Rightarrow> search (rx_from ''sales_transactions'') s_low
               | Some m \<Rightarrow> Some m)
      in case m of None \<Rightarrow> None | Some m \<Rightarrow> Some (group_text m 1))"

definition store_pred :: "string option \<Rightarrow> string \<Rightarrow> string" where
  "store_pred alias store_id =
     (case alias of
        Some a \<Rightarrow>
          if a \<noteq> [] then a @ ''.store_id = '' @ q @ store_id @ q
          else ''store_id = '' @ q @ store_id @ q
      | None \<Rightarrow> ''store_id = '' @ q @ store_id @ q)"

definition ensure_store_filter :: "string \<Rightarrow> string \<Rightarrow> string" where
  "ensure_store_filter sql store_id =
     (let original = sql; s_low = lower sql
      in if found rx_store_pred s_low then original
         else
           let pred = store_pred (fact_alias s_low) store_id
           in case search rx_where s_low of
                Some where_match \<Rightarrow>
                  (let insert_pos = m_end where_match;
                       tail = drop insert_pos original;
                       prefix = take insert_pos original;
                       sep = (if starts_blank tail then [] else '' '')
                   in prefix @ sep @ pred @ '' AND ('' @ lstrip tail @ '')'')
              | None \<Rightarrow>
                  (case search rx_tail_kw s_low of
                     Some tail_kw \<Rightarrow>
                       (let i = m_start tail_kw;
                            spacer = (if ends_blank (take i original) then [] else '' '')
                        in take i original @ spacer @ ''WHERE '' @ pred @ '' '' @ drop i original)
                   | None \<Rightarrow>
                       (let sep = (if ends_blank original then [] else '' '')
                        in original @ sep @ ''WHERE '' @ pred)))"

subsection \<open>\<open>ensure_limit\<close>\<close>

text \<open>\<^verbatim>\<open>\blimit\b\<close> with \<open>re.I\<close>\<close>

definition rx_limit :: rx where
  "rx_limit = cats [Bnd, liti ''limit'', Bnd]"

text \<open>\<^verbatim>\<open>\bgroup\s+by\b|\bsum\s*\(|\bavg\s*\(|\bcount\s*\(|\bmax\s*\(|\bmin\s*\(\<close> with \<open>re.I\<close>\<close>

definition rx_call :: "string \<Rightarrow> rx" where
  "rx_call f = cats [Bnd, liti f, Star is_space, chi CHR ''('']"

definition rx_aggregate :: rx where
  "rx_aggregate =
     alts [cats [Bnd, liti ''group'', plus is_space, liti ''by'', Bnd],
           rx_call ''sum'', rx_call ''avg'', rx_call ''count'', rx_call ''max'', rx_call ''min'']"

definition ensure_limit :: "string \<Rightarrow> int \<Rightarrow> string" where
  "ensure_limit sql default_limit =
     (let s = rstrip sql
      in if found rx_limit s then s
         else if found rx_aggregate s then s
         else
           let s = (if endswith s '';'' then rstrip (butlast s) else s)
           in s @ '' LIMIT '' @ str_of_int default_limit)"

subsection \<open>\<open>replace_current_date\<close>\<close>

text \<open>
  The five patterns, all with \<open>re.I\<close>:
  \<^verbatim>\<open>\bcurrent_date\b\<close>, \<^verbatim>\<open>\bnow\(\)\<close>, \<^verbatim>\<open>\bcurrent_timestamp\b\<close>,
  \<^verbatim>\<open>\bcurrent_timestamp\s*::\s*date\b\<close> and \<^verbatim>\<open>date_trunc\(\s*'day'\s*,\s*now\(\)\s*\)\<close>.
\<close>

definition rx_current_date :: rx where
  "rx_current_date = cats [Bnd, liti ''current_date'', Bnd]"

definition rx_now :: rx where
  "rx_now = cats [Bnd, liti ''now()'']"

definition rx_current_timestamp :: rx where
  "rx_current_timestamp = cats [Bnd, liti ''current_timestamp'', Bnd]"

definition rx_current_timestamp_date :: rx where
  "rx_current_timestamp_date =
     cats [Bnd, liti ''current_timestamp'', Star is_space, liti ''::'', Star is_space,
           liti ''date'', Bnd]"

definition rx_date_trunc :: rx where
  "rx_date_trunc =
     cats [liti ''date_trunc('', Star is_space, liti (q @ ''day'' @ q), Star is_space,
           liti '','', Star is_space, liti ''now()'', Star is_space, liti '')'']"

text \<open>
  The anchor date is the text of a date as the database prints it; the replacement
  texts built from it are taken literally.
\<close>

definition anchor_subs :: "string \<Rightarrow> string \<Rightarrow> string" where
  "anchor_subs base_date sql =
     (let s = sql;
          s = re_sub rx_current_date (q @ base_date @ q @ ''::date'') s;
          s = re_sub rx_now (q @ base_date @ q @ ''::timestamp'') s;
          s = re_sub rx_current_timestamp (q @ base_date @ q @ ''::timestamp'') s;
          s = re_sub rx_current_timestamp_date (q @ base_date @ q @ ''::date'') s;
          s = re_sub rx_date_trunc (q @ base_date @ q @ ''::timestamp'') s
      in s)"

definition replace_current_date :: "string \<Rightarrow> string option \<Rightarrow> string option" where
  "replace_current_date sql base_date =
     (case base_date of
        None \<Rightarrow> Some sql
      | Some d \<Rightarrow>
          if d = [] then Some sql
          else let s = anchor_subs d sql in if s \<noteq> sql then Some s else None)"

subsection \<open>\<open>grounding_score\<close>\<close>

definition grounding_score :: "string \<Rightarrow> int" where
  "grounding_score answer =
     (let sql = (case extract_sql answer of Some s \<Rightarrow> s | None \<Rightarrow> []);
          has_sql = (sql \<noteq> []);
          ok_shape = (if sql \<noteq> [] then looks_select_only sql else False);
          mentions = (if sql \<noteq> [] then mentions_allowed_objects sql else False)
      in of_bool has_sql + of_bool ok_shape + of_bool mentions)"

subsection \<open>\<open>repair_known_errors\<close>\<close>

text \<open>
  \<^verbatim>\<open>\bv_promos_active\b.*\bpa\b\<close> and \<^verbatim>\<open>\bv_sales_daily\b.*\bs\b\<close> with \<open>re.I | re.S\<close>;
  \<^verbatim>\<open>\bcount\s*\(\s*distinct\s*s\.promo_id\s*\)\<close> and \<^verbatim>\<open>\bp\.brand\b\<close> with \<open>re.I\<close>.
\<close>

definition rx_promos_pa :: rx where
  "rx_promos_pa = cats [Bnd, liti ''v_promos_active'', Bnd, Star any_char, Bnd, liti ''pa'', Bnd]"

definition rx_count_promo :: rx where
  "rx_count_promo =
     cats [Bnd, liti ''count'', Star is_space, liti ''('', Star is_space, liti ''distinct'',
           Star is_space, liti ''s.promo_id'', Star is_space, liti '')'']"

definition rx_p_brand :: rx where
  "rx_p_brand = cats [Bnd, liti ''p.brand'', Bnd]"

definition rx_sales_s :: rx where
  "rx_sales_s = cats [Bnd, liti ''v_sales_daily'', Bnd, Star any_char, Bnd, liti ''s'', Bnd]"

definition repair_known_errors :: "string \<Rightarrow> string \<Rightarrow> string option" where
  "repair_known_errors sql db_error_text =
     (let s = sql;
          err = lower db_error_text;
          s = (if contains err ''column s.promo_id does not exist'' \<and> found rx_promos_pa s
               then re_sub rx_count_promo ''COUNT(DISTINCT pa.promo_id)'' s
               else s);
          s = (if found rx_p_brand s \<and> found rx_sales_s s
               then re_sub rx_p_brand ''s.brand'' s
               else s)
      in if s \<noteq> sql then Some s else None)"



section \<open>The model race (\<open>adapters/llm_openrouter.py\<close>)\<close>

text \<open>
  The world outside of the program: the providers, the clock, the database and the
  prompt builder. A provider is asked with a model id, the messages and the number of
  the attempt; the database is asked with the number of statements executed before
  and the statement.
\<close>

type_synonym message = "string \<times> string"

record model =
  m_id :: string
  m_in :: rat
  m_out :: rat

text \<open>
  One \<open>client.post\<close> with \<open>raise_for_status\<close> and \<open>r.json()\<close>: a reply (text, prompt
  tokens, completion tokens), an \<open>httpx.HTTPError\<close> (which the retry loop catches), or
  any other exception (which it does not catch).
\<close>

datatype attempt = Reply string nat nat | TransportError | OtherFailure

datatype error =
    ValueError string
  | ProviderError
  | IndexError
  | ExecutionError string

type_synonym table = "string list \<times> string list list"

record world =
  MODELS :: "model list"
  post :: "string \<Rightarrow> message list \<Rightarrow> nat \<Rightarrow> attempt"
  elapsed_ms :: "string \<Rightarrow> message list \<Rightarrow> int"
  float_cost :: "model \<Rightarrow> nat \<Rightarrow> nat \<Rightarrow> rat"
  build_messages :: "string \<Rightarrow> string \<Rightarrow> message list"
  get_data_end_date :: "string \<Rightarrow> string option"
  run_sql :: "nat \<Rightarrow> string \<Rightarrow> string + table"

text \<open>
  \<open>float_cost m p c\<close> stands for \<open>round(p / 1000 * m["in"] + c / 1000 * m["out"], 6)\<close>
  in binary floating point; \<open>elapsed_ms\<close> for the measured latency.
\<close>

definition backoffs :: "rat list" where
  "backoffs = [4 / 10, 8 / 10, 16 / 10]"

text \<open>
  The retry loop of \<open>call_openrouter_sync\<close>: attempt \<open>i\<close>, with the back-offs still
  ahead. After the last back-off, one more attempt; its failure is raised.
\<close>

fun attempts :: "(nat \<Rightarrow> attempt) \<Rightarrow> nat \<Rightarrow> rat list \<Rightarrow> error + (string \<times> nat \<times> nat)" where
  "attempts p i [] =
     (case p i of
        Reply t pt ct \<Rightarrow> Inr (t, pt, ct)
      | TransportError \<Rightarrow> Inl ProviderError
      | OtherFailure \<Rightarrow> Inl ProviderError)"
| "attempts p i (b # bs) =
     (case p i of
        Reply t pt ct \<Rightarrow> Inr (t, pt, ct)
      | TransportError \<Rightarrow> attempts p (Suc i) bs
      | OtherFailure \<Rightarrow> Inl ProviderError)"

definition call_openrouter_sync :: "world \<Rightarrow> string \<Rightarrow> message list \<Rightarrow> error + (string \<times> nat \<times> nat)" where
  "call_openrouter_sync w model_id messages = attempts (post w model_id messages) 0 backoffs"

record trial =
  t_model :: string
  t_text :: string
  t_latency_ms :: int
  t_usage :: "nat \<times> nat"
  t_cost_usd :: rat
  t_score :: int

definition call_model :: "world \<Rightarrow> message list \<Rightarrow> model \<Rightarrow> error + trial" where
  "call_model w messages m =
     (case call_openrouter_sync w (m_id m) messages of
        Inl e \<Rightarrow> Inl e
      | Inr (text, pt, ct) \<Rightarrow>
          Inr \<lparr>t_model = m_id m, t_text = text, t_latency_ms = elapsed_ms w (m_id m) messages,
               t_usage = (pt, ct), t_cost_usd = float_cost w m pt ct, t_score = 0\<rparr>)"

text \<open>
  \<open>asyncio.gather\<close> without \<open>return_exceptions\<close>: the results in the order of the
  tasks, or the exception of a task that raised.
\<close>

fun gather :: "(error + 'a) list \<Rightarrow> error + 'a list" where
  "gather [] = Inr []"
| "gather (Inl e # rs) = Inl ProviderError"
| "gather (Inr x # rs) = (case gather rs of Inl e \<Rightarrow> Inl e | Inr xs \<Rightarrow> Inr (x # xs))"

text \<open>The two sort keys of \<open>try_models\<close>.\<close>

definition key_fastest :: "trial \<Rightarrow> int \<times> int \<times> rat" where
  "key_fastest x = (- t_score x, t_latency_ms x, t_cost_usd x)"

definition key_cheapest :: "trial \<Rightarrow> int \<times> rat \<times> int" where
  "key_cheapest x = (- t_score x, t_cost_usd x, t_latency_ms x)"

text \<open>\<open>sorted(results, key=sort_key)[0]\<close>; on an empty list the index fails.\<close>

definition pick_winner :: "string \<Rightarrow> trial list \<Rightarrow> error + trial" where
  "pick_winner pref results =
     (case (if pref = ''fastest'' then sort_key key_fastest results
            else sort_key key_cheapest results) of
        [] \<Rightarrow> Inl IndexError
      | winner # _ \<Rightarrow> Inr winner)"

definition try_models :: "world \<Rightarrow> message list \<Rightarrow> string \<Rightarrow> error + (trial \<times> trial list)" where
  "try_models w messages pref =
     (case gather (map (call_model w messages) (MODELS w)) of
        Inl e \<Rightarrow> Inl e
      | Inr results \<Rightarrow>
          (let results = map (\<lambda>r. r\<lparr>t_score := grounding_score (t_text r)\<rparr>) results
           in case pick_winner pref results of
                Inl e \<Rightarrow> Inl e
              | Inr winner \<Rightarrow> Inr (winner, results)))"


section \<open>The query service (\<open>services/query_service.py\<close>)\<close>

text \<open>The calls \<open>run_query\<close> makes, in order.\<close>

datatype event =
    TryModels "message list"
  | GetDataEndDate string
  | RunSql string
  | RepairKnownErrors string string
  | LogRun string

record query_result =
  r_sql :: string
  r_df :: table
  r_trials :: "trial list"
  r_winner :: trial
  r_data_end_date :: "string option"

text \<open>The guardrails of the first attempt: the message of the \<open>ValueError\<close>, if one is raised.\<close>

definition guardrails :: "string \<Rightarrow> string option" where
  "guardrails sql =
     (if sql = [] then Some (''No SQL found in the model'' @ q @ ''s answer.'')
      else if \<not> looks_select_only sql then Some ''SQL is not SELECT/WITH-only.''
      else if contains_bad sql then Some ''Blocked keyword in SQL.''
      else if \<not> mentions_allowed_objects sql
        then Some ''SQL references objects outside allowed views/tables.''
      else case columns_exist sql of
             (ok_cols, col_msg) \<Rightarrow>
               if \<not> ok_cols
               then Some (''Invalid column reference(s): ''
                          @ (case col_msg of Some m \<Rightarrow> m | None \<Rightarrow> ''None''))
               else None)"

text \<open>
  The three rewrites, as they follow each check: store filter, limit (default 200),
  anchor date; a \<open>None\<close> or empty result of \<open>replace_current_date\<close> keeps the text.
\<close>

definition rewrite :: "string \<Rightarrow> string option \<Rightarrow> string \<Rightarrow> string" where
  "rewrite store_id data_end_date sql =
     (let safe_sql = ensure_store_filter sql store_id;
          safe_sql = ensure_limit safe_sql 200
      in case replace_current_date safe_sql data_end_date of
           Some replaced \<Rightarrow> if replaced \<noteq> [] then replaced else safe_sql
         | None \<Rightarrow> safe_sql)"

text \<open>The condition under which a repaired text is rewritten and executed.\<close>

definition repair_ok :: "string \<Rightarrow> bool" where
  "repair_ok x \<longleftrightarrow>
     x \<noteq> [] \<and> looks_select_only x \<and> \<not> contains_bad x \<and> mentions_allowed_objects x"

text \<open>The end of a successful run: the data frame, the log entry, the result.\<close>

definition finish ::
  "event list \<Rightarrow> string \<Rightarrow> table \<Rightarrow> trial list \<Rightarrow> trial \<Rightarrow> string option
     \<Rightarrow> event list \<times> (error + query_result)" where
  "finish tr safe_sql df trials winner data_end_date =
     (tr @ [LogRun (t_model winner)],
      Inr \<lparr>r_sql = safe_sql, r_df = df, r_trials = trials, r_winner = winner,
           r_data_end_date = data_end_date\<rparr>)"

text \<open>
  The inner \<open>else\<close> branch: one more race, seeded with the failing statement and the
  error; \<open>e\<close> is the text of the error of the first execution.
\<close>

definition model_repair ::
  "world \<Rightarrow> event list \<Rightarrow> string \<Rightarrow> string \<Rightarrow> message list \<Rightarrow> string \<Rightarrow> string
     \<Rightarrow> trial list \<Rightarrow> trial \<Rightarrow> string option \<Rightarrow> event list \<times> (error + query_result)" where
  "model_repair w tr store_id winner_pref messages safe_sql e trials winner data_end_date =
     (let repair_messages = messages @
            [(''assistant'', ''```sql'' @ [CHR 0x0A] @ safe_sql @ [CHR 0x0A] @ ''```''),
             (''user'', ''Your SQL failed with error:'' @ [CHR 0x0A] @ e @ [CHR 0x0A]
                @ ''Fix it and return ONLY corrected SQL in ```sql ...```.'')];
          tr = tr @ [TryModels repair_messages]
      in case try_models w repair_messages winner_pref of
           Inl pe \<Rightarrow> (tr, Inl pe)
         | Inr (repaired, _) \<Rightarrow>
             (let repaired_sql = (case extract_sql (t_text repaired) of
                                    Some s \<Rightarrow> s | None \<Rightarrow> [])
              in if repair_ok repaired_sql then
                   (let repaired_sql = rewrite store_id data_end_date repaired_sql;
                        tr = tr @ [RunSql repaired_sql]
                    in case run_sql w 1 repaired_sql of
                         Inl e2 \<Rightarrow> (tr, Inl (ExecutionError e2))
                       | Inr df \<Rightarrow> finish tr repaired_sql df trials winner data_end_date)
                 else (tr, Inl (ExecutionError e))))"

text \<open>The \<open>except\<close> branch: the known repairs first, else the model.\<close>

definition repair ::
  "world \<Rightarrow> event list \<Rightarrow> string \<Rightarrow> string \<Rightarrow> message list \<Rightarrow> string \<Rightarrow> string
     \<Rightarrow> trial list \<Rightarrow> trial \<Rightarrow> string option \<Rightarrow> event list \<times> (error + query_result)" where
  "repair w tr store_id winner_pref messages safe_sql e trials winner data_end_date =
     (let tr = tr @ [RepairKnownErrors safe_sql e]
      in case repair_known_errors safe_sql e of
           None \<Rightarrow>
             model_repair w tr store_id winner_pref messages safe_sql e trials winner data_end_date
         | Some fixed_once \<Rightarrow>
             if repair_ok fixed_once then
               (let fixed_once = rewrite store_id data_end_date fixed_once;
                    tr = tr @ [RunSql fixed_once]
                in case run_sql w 1 fixed_once of
                     Inl e2 \<Rightarrow> (tr, Inl (ExecutionError e2))
                   | Inr df \<Rightarrow> finish tr fixed_once df trials winner data_end_date)
             else
               model_repair w tr store_id winner_pref messages safe_sql e trials winner
                 data_end_date)"

definition run_query ::
  "world \<Rightarrow> string \<Rightarrow> string \<Rightarrow> string \<Rightarrow> string \<Rightarrow> event list \<times> (error + query_result)" where
  "run_query w store_id user_id question winner_pref =
     (let messages = build_messages w store_id question;
          tr = [TryModels messages]
      in case try_models w messages winner_pref of
           Inl pe \<Rightarrow> (tr, Inl pe)
         | Inr (winner, trials) \<Rightarrow>
             (let sql = (case extract_sql (t_text winner) of Some s \<Rightarrow> s | None \<Rightarrow> [])
              in case guardrails sql of
                   Some msg \<Rightarrow> (tr, Inl (ValueError msg))
                 | None \<Rightarrow>
                     (let data_end_date = get_data_end_date w store_id;
                          tr = tr @ [GetDataEndDate store_id];
                          safe_sql = rewrite store_id data_end_date sql;
                          tr = tr @ [RunSql safe_sql]
                      in case run_sql w 0 safe_sql of
                           Inr df \<Rightarrow> finish tr safe_sql df trials winner data_end_date
                         | Inl e \<Rightarrow>
                             repair w tr store_id winner_pref messages safe_sql e trials winner
                               data_end_date)))"



section \<open>Example inputs\<close>

text \<open>The three trials of the winner-selection example (score, cost, latency).\<close>

definition example_trials :: "trial list" where
  "example_trials =
     [\<lparr>t_model = ''m1'', t_text = [], t_latency_ms = 500, t_usage = (0, 0),
        t_cost_usd = 2 / 1000, t_score = 3\<rparr>,
      \<lparr>t_model = ''m2'', t_text = [], t_latency_ms = 900, t_usage = (0, 0),
        t_cost_usd = 1 / 1000, t_score = 3\<rparr>,
      \<lparr>t_model = ''m3'', t_text = [], t_latency_ms = 50, t_usage = (0, 0),
        t_cost_usd = 1 / 10000, t_score = 1\<rparr>]"

text \<open>\<open>settings.MODELS\<close> as configured (\<open>DEFAULT_MODELS\<close>).\<close>

definition DEFAULT_MODELS :: "model list" where
  "DEFAULT_MODELS =
     [\<lparr>m_id = ''nousresearch/hermes-4-405b'', m_in = 20 / 10000, m_out = 80 / 10000\<rparr>,
      \<lparr>m_id = ''deepseek/deepseek-chat-v3.1:free'', m_in = 0, m_out = 0\<rparr>,
      \<lparr>m_id = ''x-ai/grok-code-fast-1'', m_in = 20 / 10000, m_out = 150 / 10000\<rparr>,
      \<lparr>m_id = ''deepseek/deepseek-chat-v3.1'', m_in = 20 / 10000, m_out = 80 / 10000\<rparr>,
      \<lparr>m_id = ''qwen/qwen3-coder'', m_in = 20 / 10000, m_out = 80 / 10000\<rparr>,
      \<lparr>m_id = ''google/gemini-2.5-flash'', m_in = 30 / 10000, m_out = 250 / 10000\<rparr>,
      \<lparr>m_id = ''openai/gpt-4.1-mini'', m_in = 40 / 10000, m_out = 160 / 10000\<rparr>,
      \<lparr>m_id = ''tencent/hunyuan-a13b-instruct:free'', m_in = 0, m_out = 0\<rparr>]"

text \<open>
  A world in which the first provider is down and every other provider answers its
  first request.
\<close>

definition world_one_down :: world where
  "world_one_down =
     \<lparr>MODELS = DEFAULT_MODELS,
      post = (\<lambda>model_id messages i.
                if model_id = ''nousresearch/hermes-4-405b'' then TransportError
                else Reply ''```sql SELECT * FROM stores ```'' 0 0),
      elapsed_ms = (\<lambda>model_id messages. 800),
      float_cost = (\<lambda>m p c. 0),
      build_messages = (\<lambda>store_id question. [(''user'', question)]),
      get_data_end_date = (\<lambda>store_id. Some ''2024-12-01''),
      run_sql = (\<lambda>n sql. Inr ([], []))\<rparr>"

section \<open>Verification\<close>

subsection \<open>The shape check\<close>

lemma contains_single: "contains s [c] \<longleftrightarrow> c \<in> set s"
  by (induction s) (auto simp: startswith_def)

lemma rstrip_decomp: "\<exists>ws. x = rstrip x @ ws \<and> (\<forall>c \<in> set ws. is_space c)"
proof -
  have "rev x = takeWhile is_space (rev x) @ dropWhile is_space (rev x)"
    by simp
  then have "x = rev (dropWhile is_space (rev x)) @ rev (takeWhile is_space (rev x))"
    by (metis rev_append rev_rev_ident)
  moreover have "\<forall>c \<in> set (rev (takeWhile is_space (rev x))). is_space c"
    by (auto dest: set_takeWhileD)
  ultimately show ?thesis unfolding rstrip_def by blast
qed

lemma lstrip_decomp: "\<exists>ws. x = ws @ lstrip x \<and> (\<forall>c \<in> set ws. is_space c)"
proof -
  have "x = takeWhile is_space x @ dropWhile is_space x" by simp
  moreover have "\<forall>c \<in> set (takeWhile is_space x). is_space c"
    by (auto dest: set_takeWhileD)
  ultimately show ?thesis unfolding lstrip_def by blast
qed

lemma space_not_semicolon: "is_space c \<Longrightarrow> c \<noteq> CHR '';''"
  by (auto simp: is_space_def less_eq_char_def)

lemma count_spaces: "\<forall>c \<in> set ws. is_space c \<Longrightarrow> count_list ws CHR '';'' = 0"
  by (induction ws) (auto dest: space_not_semicolon)

lemma count_rstrip: "count_list (rstrip x) CHR '';'' = count_list x CHR '';''"
proof -
  obtain ws where "x = rstrip x @ ws" "\<forall>c \<in> set ws. is_space c"
    using rstrip_decomp by blast
  then show ?thesis
    by (metis add.right_neutral count_list_append count_spaces)
qed

lemma count_lstrip: "count_list (lstrip x) CHR '';'' = count_list x CHR '';''"
proof -
  obtain ws where "x = ws @ lstrip x" "\<forall>c \<in> set ws. is_space c"
    using lstrip_decomp by blast
  then show ?thesis
    by (metis add.left_neutral count_list_append count_spaces)
qed

lemma count_strip: "count_list (strip x) CHR '';'' = count_list x CHR '';''"
  by (simp add: strip_def count_lstrip count_rstrip)

lemma endswith_single: "endswith s [c] \<longleftrightarrow> s \<noteq> [] \<and> last s = c"
proof (cases s rule: rev_cases)
  case Nil
  then show ?thesis by (simp add: endswith_def)
next
  case (snoc ys y)
  then show ?thesis by (auto simp: endswith_def)
qed

lemma startswith_lower_append:
  assumes "\<forall>c \<in> set b. lower_char c \<notin> set p"
  shows "startswith (lower (a @ b)) p \<longleftrightarrow> startswith (lower a) p"
proof (cases "length p \<le> length a")
  case True
  then show ?thesis by (simp add: startswith_def lower_def)
next
  case False
  then have short: "length a < length p" by simp
  have r: "\<not> startswith (lower a) p"
  proof
    assume "startswith (lower a) p"
    then have "length (take (length p) (lower a)) = length p"
      by (simp add: startswith_def)
    with short show False by (simp add: lower_def)
  qed
  have l: "\<not> startswith (lower (a @ b)) p"
  proof
    assume "startswith (lower (a @ b)) p"
    then have e: "take (length p) (lower a @ lower b) = p"
      by (simp add: startswith_def lower_def)
    then have e2: "lower a @ take (length p - length a) (lower b) = p"
      using short by (simp add: lower_def)
    then have "length (take (length p - length a) (lower b)) = length p - length a"
      by (metis add_diff_cancel_left' length_append length_map lower_def)
    with short have "take (length p - length a) (lower b) \<noteq> []"
      by auto
    then obtain c cs where ccs: "take (length p - length a) (lower b) = c # cs"
      by (cases "take (length p - length a) (lower b)") auto
    then have "c \<in> set (lower b)"
      by (metis in_set_takeD list.set_intros(1))
    then obtain c0 where "c0 \<in> set b" "c = lower_char c0"
      by (auto simp: lower_def)
    moreover from e2 ccs have "c \<in> set p" by (metis in_set_conv_decomp)
    ultimately show False using assms by blast
  qed
  from l r show ?thesis by simp
qed

lemma space_lower: "is_space c \<Longrightarrow> lower_char c = c"
  by (auto simp: is_space_def lower_char_def is_upper_def less_eq_char_def)

lemma space_not_in_kw:
  "is_space c \<Longrightarrow> c \<notin> set ''select'' \<and> c \<notin> set ''with''"
  by (auto simp: is_space_def less_eq_char_def)

lemma begins_rstrip:
  assumes "p = ''select'' \<or> p = ''with''"
  shows "startswith (lower (rstrip x)) p \<longleftrightarrow> startswith (lower x) p"
proof -
  obtain ws where ws: "x = rstrip x @ ws" "\<forall>c \<in> set ws. is_space c"
    using rstrip_decomp by blast
  have "\<forall>c \<in> set ws. lower_char c \<notin> set p"
    using ws(2) assms space_lower space_not_in_kw by metis
  from startswith_lower_append [OF this, of "rstrip x"] ws(1)
  show ?thesis by simp
qed

lemma begins_snoc_semicolon:
  assumes "p = ''select'' \<or> p = ''with''"
  shows "startswith (lower (x @ '';'')) p \<longleftrightarrow> startswith (lower x) p"
proof -
  have "\<forall>c \<in> set '';''. lower_char c \<notin> set p"
    using assms by (auto simp: lower_char_def is_upper_def less_eq_char_def)
  from startswith_lower_append [OF this] show ?thesis .
qed

lemma looks_select_only_rest:
  "looks_select_only sql \<longleftrightarrow>
     (let rest = (if endswith (strip sql) '';'' then rstrip (butlast (strip sql)) else strip sql)
      in (startswith (lower rest) ''select'' \<or> startswith (lower rest) ''with'')
         \<and> CHR '';'' \<notin> set rest)"
  by (simp add: looks_select_only_def Let_def contains_single)

lemma looks_select_only_count:
  "looks_select_only sql \<longleftrightarrow>
     (startswith (lower (strip sql)) ''select'' \<or> startswith (lower (strip sql)) ''with'')
     \<and> (count_list sql CHR '';'' = 0
          \<or> (count_list sql CHR '';'' = 1 \<and> endswith (strip sql) '';''))"
proof (cases "endswith (strip sql) '';''")
  case True
  then obtain x where x: "strip sql = x @ '';''"
    by (metis append_butlast_last_id endswith_single)
  have bx: "butlast (strip sql) = x" using x by simp
  have cnt: "count_list sql CHR '';'' = Suc (count_list x CHR '';'')"
    using x count_strip [of sql] by simp
  have b: "startswith (lower (rstrip x)) p \<longleftrightarrow> startswith (lower (strip sql)) p"
    if "p = ''select'' \<or> p = ''with''" for p
    using that begins_rstrip [of p x] begins_snoc_semicolon [of p x] x by simp
  have c: "CHR '';'' \<notin> set (rstrip x) \<longleftrightarrow> count_list x CHR '';'' = 0"
    by (metis count_rstrip count_list_0_iff)
  from True bx cnt b c show ?thesis
    unfolding looks_select_only_rest Let_def by simp
next
  case False
  have "CHR '';'' \<notin> set (strip sql) \<longleftrightarrow> count_list sql CHR '';'' = 0"
    by (metis count_strip count_list_0_iff)
  with False show ?thesis
    unfolding looks_select_only_rest Let_def by auto
qed

text \<open>
  Claim C4. \<open>looks_select_only\<close> trims white space, strips at most one trailing
  terminator (and the white space before it) and accepts if and only if the remaining
  text begins with \<open>select\<close> or \<open>with\<close>, in any case of the letters, and holds no
  terminator. Said of the input itself: the trimmed input begins with \<open>select\<close> or
  \<open>with\<close>, and the input holds no terminator, or exactly one, as the last character
  of the trimmed input. So an input with two or more terminators is rejected, and so
  is one whose remaining text does not begin with \<open>select\<close> or \<open>with\<close>.
\<close>

theorem looks_select_only_shape:
  "(looks_select_only sql \<longleftrightarrow>
      (let rest = (if endswith (strip sql) '';'' then rstrip (butlast (strip sql)) else strip sql)
       in (startswith (lower rest) ''select'' \<or> startswith (lower rest) ''with'')
          \<and> CHR '';'' \<notin> set rest))
   \<and> (looks_select_only sql \<longleftrightarrow>
        (startswith (lower (strip sql)) ''select'' \<or> startswith (lower (strip sql)) ''with'')
        \<and> (count_list sql CHR '';'' = 0
             \<or> (count_list sql CHR '';'' = 1 \<and> endswith (strip sql) '';'')))
   \<and> (2 \<le> count_list sql CHR '';'' \<longrightarrow> \<not> looks_select_only sql)
   \<and> (\<not> (startswith (lower (if endswith (strip sql) '';''
                                then rstrip (butlast (strip sql)) else strip sql)) ''select''
           \<or> startswith (lower (if endswith (strip sql) '';''
                                then rstrip (butlast (strip sql)) else strip sql)) ''with'')
        \<longrightarrow> \<not> looks_select_only sql)"
proof -
  have a: "looks_select_only sql \<longleftrightarrow>
      (let rest = (if endswith (strip sql) '';'' then rstrip (butlast (strip sql)) else strip sql)
       in (startswith (lower rest) ''select'' \<or> startswith (lower rest) ''with'')
          \<and> CHR '';'' \<notin> set rest)"
    by (rule looks_select_only_rest)
  have b: "looks_select_only sql \<longleftrightarrow>
        (startswith (lower (strip sql)) ''select'' \<or> startswith (lower (strip sql)) ''with'')
        \<and> (count_list sql CHR '';'' = 0
             \<or> (count_list sql CHR '';'' = 1 \<and> endswith (strip sql) '';''))"
    by (rule looks_select_only_count)
  have c: "\<not> looks_select_only sql" if "2 \<le> count_list sql CHR '';''"
    using that b by simp
  have d: "\<not> looks_select_only sql"
    if "\<not> (startswith (lower (if endswith (strip sql) '';''
                                then rstrip (butlast (strip sql)) else strip sql)) ''select''
           \<or> startswith (lower (if endswith (strip sql) '';''
                                then rstrip (butlast (strip sql)) else strip sql)) ''with'')"
    using that a by (simp add: Let_def)
  from a b c d show ?thesis by blast
qed

theorem looks_select_only_shape_witness:
  "2 \<le> count_list ''select 1; drop table stores;'' CHR '';''
   \<and> \<not> looks_select_only ''select 1; drop table stores;''
   \<and> count_list '' Select * from stores ; '' CHR '';'' = 1
   \<and> looks_select_only '' Select * from stores ; ''"
proof -
  have h: "2 \<le> count_list ''select 1; drop table stores;'' CHR '';''" by simp
  have k: "count_list '' Select * from stores ; '' CHR '';'' = 1" by simp
  have e: "endswith (strip '' Select * from stores ; '') '';''
        \<and> startswith (lower (strip '' Select * from stores ; '')) ''select''"
    by code_simp
  from looks_select_only_shape [of "''select 1; drop table stores;''"] h
  have r: "\<not> looks_select_only ''select 1; drop table stores;''" by blast
  from looks_select_only_shape [of "'' Select * from stores ; ''"] k e
  have "looks_select_only '' Select * from stores ; ''" by blast
  with h r k show ?thesis by blast
qed

subsection \<open>Temporal anchoring\<close>

text \<open>
  Claim C9. With the anchor date \<open>2024-12-01\<close>, \<open>replace_current_date\<close> turns
  \<open>... WHERE date = CURRENT_DATE\<close> into \<open>... WHERE date = '2024-12-01'::date\<close>. Without an
  anchor date (\<open>None\<close>, or the empty text) it returns every text as it is, and the
  rewrite sequence of \<open>run_query\<close> is then the store filter and the limit alone: a no-op,
  not an error.
\<close>

theorem replace_current_date_anchor:
  "replace_current_date ''... WHERE date = CURRENT_DATE'' (Some ''2024-12-01'')
     = Some (''... WHERE date = '' @ q @ ''2024-12-01'' @ q @ ''::date'')
   \<and> replace_current_date sql None = Some sql
   \<and> replace_current_date sql (Some []) = Some sql
   \<and> rewrite store_id None sql = ensure_limit (ensure_store_filter sql store_id) 200"
proof -
  have a: "replace_current_date ''... WHERE date = CURRENT_DATE'' (Some ''2024-12-01'')
     = Some (''... WHERE date = '' @ q @ ''2024-12-01'' @ q @ ''::date'')"
    by code_simp
  have b: "replace_current_date sql None = Some sql"
    by (simp add: replace_current_date_def)
  have c: "replace_current_date sql (Some []) = Some sql"
    by (simp add: replace_current_date_def)
  have d: "rewrite store_id None sql = ensure_limit (ensure_store_filter sql store_id) 200"
    by (simp add: rewrite_def replace_current_date_def Let_def)
  from a b c d show ?thesis by blast
qed

theorem replace_current_date_anchor_witness:
  "replace_current_date ''SELECT now() FROM stores'' None = Some ''SELECT now() FROM stores''"
  using replace_current_date_anchor [of "''SELECT now() FROM stores''"] by blast

lemma scan_None_subst: "scan r i w s = None \<Longrightarrow> subst r rep w 0 s = s"
proof (induction s arbitrary: i w)
  case Nil
  then show ?case by (simp split: list.splits prod.splits)
next
  case (Cons c cs)
  from Cons.prems have m: "ms r (w, c # cs, []) = []"
    by (simp split: list.splits prod.splits)
  with Cons.prems have "scan r (Suc i) (is_word c) cs = None"
    by simp
  then have "subst r rep (is_word c) 0 cs = cs"
    by (rule Cons.IH)
  with m show ?case by simp
qed

lemma re_sub_not_found: "\<not> found r s \<Longrightarrow> re_sub r rep s = s"
  by (simp add: found_def search_def re_sub_def scan_None_subst)

text \<open>
  Claim C10. With an anchor date that is not empty, \<open>replace_current_date\<close> returns
  \<open>None\<close>, not the text, when the text shows none of the five temporal patterns; a text
  is returned only when the substitutions changed it. Without an anchor the text
  itself is returned. In \<open>run_query\<close>, a \<open>None\<close> keeps the text as it was before the
  call.
\<close>

theorem replace_current_date_None_when_unchanged:
  "d \<noteq> [] \<Longrightarrow>
     (\<not> found rx_current_date s \<and> \<not> found rx_now s \<and> \<not> found rx_current_timestamp s
        \<and> \<not> found rx_current_timestamp_date s \<and> \<not> found rx_date_trunc s
        \<longrightarrow> replace_current_date s (Some d) = None)
   \<and> (\<forall>r. replace_current_date s (Some d) = Some r \<longrightarrow> r \<noteq> s \<and> r = anchor_subs d s)
   \<and> replace_current_date s None = Some s
   \<and> (replace_current_date (ensure_limit (ensure_store_filter u store_id) 200) (Some d) = None
        \<longrightarrow> rewrite store_id (Some d) u = ensure_limit (ensure_store_filter u store_id) 200)"
proof -
  assume d: "d \<noteq> []"
  have a: "replace_current_date s (Some d) = None"
    if "\<not> found rx_current_date s \<and> \<not> found rx_now s \<and> \<not> found rx_current_timestamp s
        \<and> \<not> found rx_current_timestamp_date s \<and> \<not> found rx_date_trunc s"
  proof -
    from that have "anchor_subs d s = s"
      by (simp add: anchor_subs_def re_sub_not_found)
    with d show ?thesis by (simp add: replace_current_date_def)
  qed
  have b: "r \<noteq> s \<and> r = anchor_subs d s" if "replace_current_date s (Some d) = Some r" for r
    using that d by (auto simp: replace_current_date_def Let_def split: if_splits)
  have c: "replace_current_date s None = Some s"
    by (simp add: replace_current_date_def)
  have e: "rewrite store_id (Some d) u = ensure_limit (ensure_store_filter u store_id) 200"
    if "replace_current_date (ensure_limit (ensure_store_filter u store_id) 200) (Some d) = None"
    using that by (simp add: rewrite_def Let_def)
  from a b c e show ?thesis by blast
qed

theorem replace_current_date_None_when_unchanged_witness:
  "''2024-12-01'' \<noteq> []
   \<and> \<not> found rx_current_date ''SELECT * FROM stores''
   \<and> \<not> found rx_now ''SELECT * FROM stores''
   \<and> \<not> found rx_current_timestamp ''SELECT * FROM stores''
   \<and> \<not> found rx_current_timestamp_date ''SELECT * FROM stores''
   \<and> \<not> found rx_date_trunc ''SELECT * FROM stores''
   \<and> replace_current_date ''SELECT * FROM stores'' (Some ''2024-12-01'') = None"
proof -
  have d: "''2024-12-01'' \<noteq> []" by simp
  have n: "\<not> found rx_current_date ''SELECT * FROM stores''
   \<and> \<not> found rx_now ''SELECT * FROM stores''
   \<and> \<not> found rx_current_timestamp ''SELECT * FROM stores''
   \<and> \<not> found rx_current_timestamp_date ''SELECT * FROM stores''
   \<and> \<not> found rx_date_trunc ''SELECT * FROM stores''"
    by code_simp
  from replace_current_date_None_when_unchanged [OF d, of "''SELECT * FROM stores''"] n d
  show ?thesis by blast
qed

subsection \<open>The column and alias check\<close>

lemma in_join_sublist: "x \<in> set xs \<Longrightarrow> sublist x (join sep xs)"
proof (induction sep xs rule: join.induct)
  case (1 sep)
  then show ?case by simp
next
  case (2 sep y)
  then show ?case by simp
next
  case (3 sep y z zs)
  show ?case
  proof (cases "x = y")
    case True
    then show ?thesis by (simp add: sublist_append_rightI)
  next
    case False
    with 3 have "sublist x (join sep (z # zs))" by simp
    then obtain ps ss where "join sep (z # zs) = ps @ x @ ss"
      by (auto simp: sublist_def)
    then have "join sep (y # z # zs) = (y @ sep @ ps) @ x @ ss" by simp
    then show ?thesis unfolding sublist_def by blast
  qed
qed

text \<open>
  Claim C8. \<open>columns_exist\<close> fails \<open>SELECT z.foo FROM stores s\<close> with the problem
  \<open>Undefined alias 'z'\<close> and passes \<open>SELECT s.store_id FROM stores s\<close>. Whenever a problem
  is recorded (\<open>bad_refs\<close> is not empty), the check fails and its detail is the recorded
  problems, each once, joined by \<open>"; "\<close>: every recorded problem is part of the detail.
\<close>

theorem columns_exist_reports:
  "columns_exist ''SELECT z.foo FROM stores s''
     = (False, Some (''Undefined alias '' @ q @ ''z'' @ q))
   \<and> columns_exist ''SELECT s.store_id FROM stores s'' = (True, None)
   \<and> (bad_refs sql \<noteq> [] \<longrightarrow>
        (\<exists>ds. columns_exist sql = (False, Some (join ''; '' ds))
           \<and> distinct ds \<and> set ds = set (bad_refs sql)
           \<and> (\<forall>p \<in> set (bad_refs sql). sublist p (join ''; '' ds))))"
proof -
  have a: "columns_exist ''SELECT z.foo FROM stores s''
      = (False, Some (''Undefined alias '' @ q @ ''z'' @ q))"
    by code_simp
  have b: "columns_exist ''SELECT s.store_id FROM stores s'' = (True, None)"
    by code_simp
  have c: "\<exists>ds. columns_exist sql = (False, Some (join ''; '' ds))
           \<and> distinct ds \<and> set ds = set (bad_refs sql)
           \<and> (\<forall>p \<in> set (bad_refs sql). sublist p (join ''; '' ds))" if "bad_refs sql \<noteq> []"
  proof -
    let ?ds = "sort (remdups (bad_refs sql))"
    have "columns_exist sql = (False, Some (join ''; '' ?ds))"
      using that by (simp add: columns_exist_def)
    moreover have "distinct ?ds" by simp
    moreover have "set ?ds = set (bad_refs sql)" by simp
    moreover have "\<forall>p \<in> set (bad_refs sql). sublist p (join ''; '' ?ds)"
      by (simp add: in_join_sublist)
    ultimately show ?thesis by blast
  qed
  from a b c show ?thesis by blast
qed

theorem columns_exist_reports_witness:
  "bad_refs ''SELECT z.foo, s.nope, z.foo FROM stores s'' \<noteq> []
   \<and> columns_exist ''SELECT z.foo, s.nope, z.foo FROM stores s''
       = (False, Some (''Undefined alias '' @ q @ ''z'' @ q @ ''; s.nope not in stores''))
   \<and> sublist ''s.nope not in stores''
        (the (snd (columns_exist ''SELECT z.foo, s.nope, z.foo FROM stores s'')))"
proof -
  let ?s = "''SELECT z.foo, s.nope, z.foo FROM stores s''"
  have h: "bad_refs ?s = [''Undefined alias '' @ q @ ''z'' @ q, ''s.nope not in stores'',
      ''Undefined alias '' @ q @ ''z'' @ q]"
    by code_simp
  have ne: "bad_refs ?s \<noteq> []" by (simp add: h)
  have v: "columns_exist ?s
      = (False, Some (''Undefined alias '' @ q @ ''z'' @ q @ ''; s.nope not in stores''))"
    by code_simp
  from columns_exist_reports [of ?s] ne
  obtain ds where ds: "columns_exist ?s = (False, Some (join ''; '' ds))"
      "\<forall>p \<in> set (bad_refs ?s). sublist p (join ''; '' ds)"
    by blast
  have "''s.nope not in stores'' \<in> set (bad_refs ?s)" by (simp add: h)
  with ds have "sublist ''s.nope not in stores'' (the (snd (columns_exist ?s)))"
    by simp
  with ne v show ?thesis by blast
qed

subsection \<open>Winner selection\<close>

lemma hd_sort_key_min:
  assumes "xs \<noteq> []"
  shows "\<exists>w ys. sort_key f xs = w # ys \<and> w \<in> set xs \<and> (\<forall>t \<in> set xs. f w \<le> f t)"
proof -
  from assms have "sort_key f xs \<noteq> []"
    by (metis set_sort set_empty)
  then obtain w ys where wy: "sort_key f xs = w # ys"
    by (cases "sort_key f xs") auto
  have "set (w # ys) = set xs"
    using wy by (metis set_sort)
  moreover have "sorted (map f (w # ys))"
    using wy by (metis sorted_sort_key)
  ultimately have "w \<in> set xs" "\<forall>t \<in> set xs. f w \<le> f t"
    by auto
  with wy show ?thesis by blast
qed

lemma key_cheapest_le:
  "key_cheapest a \<le> key_cheapest b \<longleftrightarrow>
     t_score b < t_score a \<or>
     (t_score a = t_score b \<and>
       (t_cost_usd a < t_cost_usd b \<or>
        (t_cost_usd a = t_cost_usd b \<and> t_latency_ms a \<le> t_latency_ms b)))"
  by (auto simp: key_cheapest_def less_eq_prod_def)

lemma key_fastest_le:
  "key_fastest a \<le> key_fastest b \<longleftrightarrow>
     t_score b < t_score a \<or>
     (t_score a = t_score b \<and>
       (t_latency_ms a < t_latency_ms b \<or>
        (t_latency_ms a = t_latency_ms b \<and> t_cost_usd a \<le> t_cost_usd b)))"
  by (auto simp: key_fastest_def less_eq_prod_def)

lemma example_winner: "pick_winner ''cheapest'' example_trials = Inr (example_trials ! 1)"
  by (simp add: pick_winner_def example_trials_def key_cheapest_def less_eq_prod_def)

text \<open>
  Claim C7. \<open>pick_winner\<close>, the selection step of \<open>try_models\<close>, is a function of the
  trial list and the policy. On a list that is not empty it returns a trial of the
  list whose key is least: under \<open>fastest\<close> the key (score descending, latency
  ascending, cost ascending), under any other policy, \<open>cheapest\<close> among them, the key
  (score descending, cost ascending, latency ascending), both compared
  lexicographically. On the three example trials under \<open>cheapest\<close> the winner is the
  second.
\<close>

theorem pick_winner_lexicographic:
  "(results \<noteq> [] \<longrightarrow>
      (\<exists>w. pick_winner pref results = Inr w \<and> w \<in> set results
         \<and> (pref = ''fastest'' \<longrightarrow> (\<forall>t \<in> set results. key_fastest w \<le> key_fastest t))
         \<and> (pref \<noteq> ''fastest'' \<longrightarrow> (\<forall>t \<in> set results. key_cheapest w \<le> key_cheapest t))))
   \<and> (key_cheapest a \<le> key_cheapest b \<longleftrightarrow>
         t_score b < t_score a \<or>
         (t_score a = t_score b \<and>
           (t_cost_usd a < t_cost_usd b \<or>
            (t_cost_usd a = t_cost_usd b \<and> t_latency_ms a \<le> t_latency_ms b))))
   \<and> (key_fastest a \<le> key_fastest b \<longleftrightarrow>
         t_score b < t_score a \<or>
         (t_score a = t_score b \<and>
           (t_latency_ms a < t_latency_ms b \<or>
            (t_latency_ms a = t_latency_ms b \<and> t_cost_usd a \<le> t_cost_usd b))))
   \<and> pick_winner ''cheapest'' example_trials = Inr (example_trials ! 1)"
proof -
  have main: "\<exists>w. pick_winner pref results = Inr w \<and> w \<in> set results
         \<and> (pref = ''fastest'' \<longrightarrow> (\<forall>t \<in> set results. key_fastest w \<le> key_fastest t))
         \<and> (pref \<noteq> ''fastest'' \<longrightarrow> (\<forall>t \<in> set results. key_cheapest w \<le> key_cheapest t))"
    if ne: "results \<noteq> []"
  proof (cases "pref = ''fastest''")
    case True
    from hd_sort_key_min [OF ne, of key_fastest]
    obtain w ys where "sort_key key_fastest results = w # ys" "w \<in> set results"
        "\<forall>t \<in> set results. key_fastest w \<le> key_fastest t"
      by blast
    with True show ?thesis by (simp add: pick_winner_def)
  next
    case False
    from hd_sort_key_min [OF ne, of key_cheapest]
    obtain w ys where "sort_key key_cheapest results = w # ys" "w \<in> set results"
        "\<forall>t \<in> set results. key_cheapest w \<le> key_cheapest t"
      by blast
    with False show ?thesis by (simp add: pick_winner_def)
  qed
  from main key_cheapest_le [of a b] key_fastest_le [of a b] example_winner
  show ?thesis by blast
qed

theorem pick_winner_lexicographic_witness:
  "example_trials \<noteq> []
   \<and> pick_winner ''fastest'' example_trials = Inr (example_trials ! 0)
   \<and> key_fastest (example_trials ! 0) \<le> key_fastest (example_trials ! 1)
   \<and> key_fastest (example_trials ! 0) \<le> key_fastest (example_trials ! 2)"
proof -
  have ne: "example_trials \<noteq> []" by (simp add: example_trials_def)
  have v: "pick_winner ''fastest'' example_trials = Inr (example_trials ! 0)"
    by (simp add: pick_winner_def example_trials_def key_fastest_def less_eq_prod_def)
  have m: "example_trials ! 1 \<in> set example_trials" "example_trials ! 2 \<in> set example_trials"
    by (simp_all add: example_trials_def)
  from pick_winner_lexicographic [of example_trials "''fastest''"] ne v m
  show ?thesis by auto
qed

subsection \<open>The model race\<close>

lemma attempts_Inr_D:
  "attempts p i bs = Inr (t, pt, ct) \<Longrightarrow>
     \<exists>k \<le> length bs. p (i + k) = Reply t pt ct \<and> (\<forall>j < k. p (i + j) = TransportError)"
proof (induction bs arbitrary: i)
  case Nil
  then have "p i = Reply t pt ct" by (simp split: attempt.splits)
  then show ?case by simp
next
  case (Cons b bs)
  show ?case
  proof (cases "p i")
    case (Reply t' pt' ct')
    with Cons.prems have "p (i + 0) = Reply t pt ct" by simp
    then show ?thesis by (intro exI [of _ 0]) simp
  next
    case TransportError
    with Cons.prems have "attempts p (Suc i) bs = Inr (t, pt, ct)" by simp
    from Cons.IH [OF this] obtain k where k: "k \<le> length bs" "p (Suc i + k) = Reply t pt ct"
      "\<forall>j < k. p (Suc i + j) = TransportError" by blast
    have "p (i + j) = TransportError" if "j < Suc k" for j
    proof (cases j)
      case 0
      then show ?thesis using TransportError by simp
    next
      case (Suc j')
      with that k(3) show ?thesis by simp
    qed
    with k(1,2) show ?thesis by (intro exI [of _ "Suc k"]) simp
  next
    case OtherFailure
    with Cons.prems show ?thesis by simp
  qed
qed

lemma attempts_Inr_I:
  "p (i + k) = Reply t pt ct \<Longrightarrow> \<forall>j < k. p (i + j) = TransportError \<Longrightarrow> k \<le> length bs
     \<Longrightarrow> attempts p i bs = Inr (t, pt, ct)"
proof (induction k arbitrary: i bs)
  case 0
  then show ?case by (cases bs) simp_all
next
  case (Suc k)
  then obtain b bs' where bs: "bs = b # bs'" by (cases bs) auto
  from Suc.prems(2) have pi: "p i = TransportError" by (metis add.right_neutral zero_less_Suc)
  have "p (Suc i + k) = Reply t pt ct" using Suc.prems(1) by simp
  moreover have "\<forall>j < k. p (Suc i + j) = TransportError"
    using Suc.prems(2) by (metis Suc_less_eq add_Suc_shift)
  moreover have "k \<le> length bs'" using Suc.prems(3) bs by simp
  ultimately have "attempts p (Suc i) bs' = Inr (t, pt, ct)" by (rule Suc.IH)
  with pi bs show ?case by simp
qed

lemma attempts_exhausted:
  "\<forall>j \<le> length bs. p (i + j) = TransportError \<Longrightarrow> attempts p i bs = Inl ProviderError"
proof (induction bs arbitrary: i)
  case Nil
  then show ?case by simp
next
  case (Cons b bs)
  from Cons.prems have pi: "p i = TransportError" by (metis add.right_neutral le0)
  have "\<forall>j \<le> length bs. p (Suc i + j) = TransportError"
    using Cons.prems by (metis Suc_le_mono add_Suc_shift length_Cons)
  then have "attempts p (Suc i) bs = Inl ProviderError" by (rule Cons.IH)
  with pi show ?case by simp
qed

lemma attempts_Inl: "attempts p i bs = Inl e \<Longrightarrow> e = ProviderError"
  by (induction bs arbitrary: i) (auto split: attempt.splits)

lemma gather_Cons_Inr:
  "gather (Inr x # rs) = Inr xs \<longleftrightarrow> (\<exists>ys. gather rs = Inr ys \<and> xs = x # ys)"
  by (cases "gather rs") auto

lemma gather_Inr: "gather rs = Inr xs \<longleftrightarrow> rs = map Inr xs"
proof (induction rs arbitrary: xs)
  case Nil
  then show ?case by auto
next
  case (Cons r rs)
  show ?case
  proof (cases r)
    case (Inl e)
    then show ?thesis by auto
  next
    case (Inr x)
    then show ?thesis
      unfolding Inr gather_Cons_Inr using Cons.IH by (auto simp: Cons_eq_map_conv)
  qed
qed

lemma gather_Inl: "gather rs = Inl e \<Longrightarrow> e = ProviderError"
proof (induction rs)
  case Nil
  then show ?case by simp
next
  case (Cons r rs)
  then show ?case by (cases r) (auto split: sum.splits)
qed

lemma gather_fails: "Inl e \<in> set rs \<Longrightarrow> gather rs = Inl ProviderError"
proof (induction rs)
  case Nil
  then show ?case by simp
next
  case (Cons r rs)
  show ?case
  proof (cases r)
    case (Inl e')
    then show ?thesis by simp
  next
    case (Inr x)
    with Cons have "gather rs = Inl ProviderError" by auto
    with Inr show ?thesis by simp
  qed
qed



lemma call_model_Inr_D:
  assumes "call_model w msgs m = Inr r"
  shows "t_model r = m_id m
    \<and> (\<exists>k \<le> 3. (\<exists>t pt ct. post w (m_id m) msgs k = Reply t pt ct)
          \<and> (\<forall>j < k. post w (m_id m) msgs j = TransportError))"
proof -
  from assms obtain t pt ct where
    a: "attempts (post w (m_id m) msgs) 0 backoffs = Inr (t, pt, ct)" and
    r: "t_model r = m_id m"
    by (auto simp: call_model_def call_openrouter_sync_def split: sum.splits)
  from attempts_Inr_D [OF a] obtain k where "k \<le> length backoffs"
    "post w (m_id m) msgs (0 + k) = Reply t pt ct"
    "\<forall>j < k. post w (m_id m) msgs (0 + j) = TransportError" by blast
  then have "k \<le> 3 \<and> (\<exists>t pt ct. post w (m_id m) msgs k = Reply t pt ct)
          \<and> (\<forall>j < k. post w (m_id m) msgs j = TransportError)"
    by (simp add: backoffs_def)
  with r show ?thesis by blast
qed

lemma call_model_exhausted:
  assumes "\<forall>j \<le> 3. post w (m_id m) msgs j = TransportError"
  shows "call_model w msgs m = Inl ProviderError"
proof -
  have "\<forall>j \<le> length backoffs. post w (m_id m) msgs (0 + j) = TransportError"
    using assms by (simp add: backoffs_def)
  from attempts_exhausted [OF this] show ?thesis
    by (simp add: call_model_def call_openrouter_sync_def)
qed

lemma call_model_Inr_I:
  assumes "k \<le> 3" "post w (m_id m) msgs k = Reply t pt ct"
    "\<forall>j < k. post w (m_id m) msgs j = TransportError"
  shows "\<exists>r. call_model w msgs m = Inr r"
proof -
  have "attempts (post w (m_id m) msgs) 0 backoffs = Inr (t, pt, ct)"
    by (rule attempts_Inr_I [where k = k]) (use assms in \<open>simp_all add: backoffs_def\<close>)
  then show ?thesis
    by (simp add: call_model_def call_openrouter_sync_def)
qed

lemma pick_winner_member: "pick_winner pref rs = Inr x \<Longrightarrow> x \<in> set rs"
proof -
  assume a: "pick_winner pref rs = Inr x"
  show ?thesis
  proof (cases "pref = ''fastest''")
    case True
    with a obtain ys where "sort_key key_fastest rs = x # ys"
      by (auto simp: pick_winner_def split: list.splits)
    then have "x \<in> set (sort_key key_fastest rs)" by simp
    then show ?thesis by simp
  next
    case False
    with a obtain ys where "sort_key key_cheapest rs = x # ys"
      by (auto simp: pick_winner_def split: list.splits)
    then have "x \<in> set (sort_key key_cheapest rs)" by simp
    then show ?thesis by simp
  qed
qed

lemma pick_winner_nonempty: "rs \<noteq> [] \<Longrightarrow> \<exists>x. pick_winner pref rs = Inr x"
proof -
  assume ne: "rs \<noteq> []"
  have f: "sort_key key_fastest rs \<noteq> []"
    using ne by (metis set_sort set_empty)
  have c: "sort_key key_cheapest rs \<noteq> []"
    using ne by (metis set_sort set_empty)
  show ?thesis
  proof (cases "pref = ''fastest''")
    case True
    with f show ?thesis by (cases "sort_key key_fastest rs") (auto simp: pick_winner_def)
  next
    case False
    with c show ?thesis by (cases "sort_key key_cheapest rs") (auto simp: pick_winner_def)
  qed
qed

lemma try_models_Inr_D:
  assumes "try_models w msgs pref = Inr (winner, trials)"
  shows "\<exists>rs. map (call_model w msgs) (MODELS w) = map Inr rs
           \<and> trials = map (\<lambda>r. r\<lparr>t_score := grounding_score (t_text r)\<rparr>) rs
           \<and> pick_winner pref trials = Inr winner"
  using assms
  by (auto simp: try_models_def Let_def gather_Inr split: sum.splits)

lemma map_eq_models:
  "map f mods = map Inr rs \<Longrightarrow> (\<And>m r. m \<in> set mods \<Longrightarrow> f m = Inr r \<Longrightarrow> t_model r = m_id m)
     \<Longrightarrow> map t_model rs = map m_id mods"
proof (induction mods arbitrary: rs)
  case Nil
  then show ?case by simp
next
  case (Cons m mods)
  then obtain r rs' where rs: "rs = r # rs'" "f m = Inr r" "map f mods = map Inr rs'"
    by (cases rs) auto
  have "map t_model rs' = map m_id mods"
    by (rule Cons.IH [OF rs(3)]) (use Cons.prems(2) in auto)
  moreover have "t_model r = m_id m"
    by (rule Cons.prems(2) [OF _ rs(2)]) simp
  ultimately show ?case using rs(1) by simp
qed

lemma all_Inr_map: "\<forall>x \<in> set xs. \<exists>r. f x = Inr r \<Longrightarrow> \<exists>rs. map f xs = map Inr rs"
proof (induction xs)
  case Nil
  then show ?case by simp
next
  case (Cons x xs)
  then obtain r rs where "f x = Inr r" "map f xs = map Inr rs" by auto
  then have "map f (x # xs) = map Inr (r # rs)" by simp
  then show ?case by blast
qed

text \<open>
  Claim C2, as the code has it. A request is tried at most four times (three
  back-offs). \<open>try_models\<close> returns trials only when every configured provider
  answered within its four attempts, and then one trial for each, in the order of the
  configuration, the winner among them; as soon as one configured provider fails all
  four attempts the race fails as a whole, and no trial stands for the failed
  provider. With a configuration that is not empty, the race succeeds exactly when
  every provider answers within its attempts.
\<close>

theorem try_models_all_or_nothing:
  "(try_models w msgs pref = Inr (winner, trials) \<longrightarrow>
      map t_model trials = map m_id (MODELS w) \<and> winner \<in> set trials
      \<and> (\<forall>m \<in> set (MODELS w).
            \<exists>k \<le> 3. (\<exists>t pt ct. post w (m_id m) msgs k = Reply t pt ct)
               \<and> (\<forall>j < k. post w (m_id m) msgs j = TransportError)))
   \<and> ((\<exists>m \<in> set (MODELS w). \<forall>j \<le> 3. post w (m_id m) msgs j = TransportError)
        \<longrightarrow> try_models w msgs pref = Inl ProviderError)
   \<and> (MODELS w \<noteq> []
        \<and> (\<forall>m \<in> set (MODELS w).
              \<exists>k \<le> 3. (\<exists>t pt ct. post w (m_id m) msgs k = Reply t pt ct)
                 \<and> (\<forall>j < k. post w (m_id m) msgs j = TransportError))
        \<longrightarrow> (\<exists>win ts. try_models w msgs pref = Inr (win, ts)))"
proof -
  have a: "map t_model trials = map m_id (MODELS w) \<and> winner \<in> set trials
      \<and> (\<forall>m \<in> set (MODELS w).
            \<exists>k \<le> 3. (\<exists>t pt ct. post w (m_id m) msgs k = Reply t pt ct)
               \<and> (\<forall>j < k. post w (m_id m) msgs j = TransportError))"
    if ok: "try_models w msgs pref = Inr (winner, trials)"
  proof -
    from try_models_Inr_D [OF ok] obtain rs where
      rs: "map (call_model w msgs) (MODELS w) = map Inr rs" and
      tr: "trials = map (\<lambda>r. r\<lparr>t_score := grounding_score (t_text r)\<rparr>) rs" and
      pw: "pick_winner pref trials = Inr winner" by blast
    have "map t_model rs = map m_id (MODELS w)"
      by (rule map_eq_models [OF rs]) (use call_model_Inr_D in blast)
    then have 1: "map t_model trials = map m_id (MODELS w)"
      by (simp add: tr comp_def)
    have 2: "winner \<in> set trials" using pw by (rule pick_winner_member)
    have 3: "\<exists>k \<le> 3. (\<exists>t pt ct. post w (m_id m) msgs k = Reply t pt ct)
               \<and> (\<forall>j < k. post w (m_id m) msgs j = TransportError)"
      if m: "m \<in> set (MODELS w)" for m
    proof -
      from m have "call_model w msgs m \<in> set (map Inr rs)"
        by (metis rs image_eqI set_map)
      then obtain r where "call_model w msgs m = Inr r" by auto
      from call_model_Inr_D [OF this] show ?thesis by blast
    qed
    from 1 2 3 show ?thesis by blast
  qed
  have b: "try_models w msgs pref = Inl ProviderError"
    if "\<exists>m \<in> set (MODELS w). \<forall>j \<le> 3. post w (m_id m) msgs j = TransportError"
  proof -
    from that obtain m where m: "m \<in> set (MODELS w)"
      "\<forall>j \<le> 3. post w (m_id m) msgs j = TransportError" by blast
    from call_model_exhausted [OF m(2)] m(1)
    have "Inl ProviderError \<in> set (map (call_model w msgs) (MODELS w))"
      by (metis image_eqI set_map)
    then have "gather (map (call_model w msgs) (MODELS w)) = Inl ProviderError"
      by (rule gather_fails)
    then show ?thesis by (simp add: try_models_def)
  qed
  have c: "\<exists>win ts. try_models w msgs pref = Inr (win, ts)"
    if ne: "MODELS w \<noteq> []" and
      all: "\<forall>m \<in> set (MODELS w).
              \<exists>k \<le> 3. (\<exists>t pt ct. post w (m_id m) msgs k = Reply t pt ct)
                 \<and> (\<forall>j < k. post w (m_id m) msgs j = TransportError)"
  proof -
    have "\<forall>m \<in> set (MODELS w). \<exists>r. call_model w msgs m = Inr r"
      using all call_model_Inr_I by blast
    then have "\<exists>rs. map (call_model w msgs) (MODELS w) = map Inr rs"
      by (rule all_Inr_map)
    then obtain rs where rs: "map (call_model w msgs) (MODELS w) = map Inr rs" by blast
    then have g: "gather (map (call_model w msgs) (MODELS w)) = Inr rs"
      by (simp add: gather_Inr)
    from rs ne have "rs \<noteq> []" by auto
    then have "map (\<lambda>r. r\<lparr>t_score := grounding_score (t_text r)\<rparr>) rs \<noteq> []" by simp
    from pick_winner_nonempty [OF this, of pref] obtain x where
      "pick_winner pref (map (\<lambda>r. r\<lparr>t_score := grounding_score (t_text r)\<rparr>) rs) = Inr x"
      by blast
    with g show ?thesis by (simp add: try_models_def Let_def)
  qed
  from a b c show ?thesis by blast
qed

theorem try_models_all_or_nothing_witness:
  "(\<exists>m \<in> set (MODELS world_one_down).
       \<forall>j \<le> 3. post world_one_down (m_id m) [] j = TransportError)
   \<and> try_models world_one_down [] ''fastest'' = Inl ProviderError"
proof -
  have "hd (MODELS world_one_down) \<in> set (MODELS world_one_down)"
    by (simp add: world_one_down_def DEFAULT_MODELS_def)
  moreover have "\<forall>j \<le> 3. post world_one_down (m_id (hd (MODELS world_one_down))) [] j = TransportError"
    by (simp add: world_one_down_def DEFAULT_MODELS_def)
  ultimately have h: "\<exists>m \<in> set (MODELS world_one_down).
       \<forall>j \<le> 3. post world_one_down (m_id m) [] j = TransportError" by blast
  with try_models_all_or_nothing [of world_one_down "[]" "''fastest''"]
  show ?thesis by blast
qed

text \<open>
  The claim as the spec states it fails where one of the eight configured providers
  is down and the seven others answer at once: no trial is made for the provider
  that is down, and the race fails.
\<close>

theorem try_models_one_provider_down:
  "try_models world_one_down [(''user'', ''List the stores'')] ''cheapest'' = Inl ProviderError
   \<and> map (\<lambda>m. post world_one_down (m_id m) [(''user'', ''List the stores'')] 0)
         (MODELS world_one_down)
       = TransportError # replicate 7 (Reply ''```sql SELECT * FROM stores ```'' 0 0)"
  by code_simp

end
